theory Spec2Isabelle
  imports Complex_Main
begin

section \<open>Python string primitives used by the recommendation code\<close>

text \<open>
  Strings are lists of 8-bit characters.  The primitives below model the built-in
  methods the source calls on them, on ASCII text: \<^verbatim>\<open>str.lower\<close>, \<^verbatim>\<open>str.strip\<close>,
  \<^verbatim>\<open>str.replace\<close> (for single characters), \<^verbatim>\<open>str.split\<close> with a separator, and
  the substring test \<^verbatim>\<open>w in text\<close>.
\<close>

definition upper_letters :: string where
  "upper_letters = ''ABCDEFGHIJKLMNOPQRSTUVWXYZ''"

definition lower_letters :: string where
  "lower_letters = ''abcdefghijklmnopqrstuvwxyz''"

definition lower_char :: "char \<Rightarrow> char" where
  "lower_char c = (case map_of (zip upper_letters lower_letters) c of None \<Rightarrow> c | Some l \<Rightarrow> l)"

definition lower :: "string \<Rightarrow> string" where
  "lower s = map lower_char s"

text \<open>The ASCII characters for which \<^verbatim>\<open>str.isspace\<close> holds.\<close>

definition is_space :: "char \<Rightarrow> bool" where
  "is_space c = (c \<in> set [CHR 0x09, CHR 0x0A, CHR 0x0B, CHR 0x0C, CHR 0x0D,
                            CHR 0x1C, CHR 0x1D, CHR 0x1E, CHR 0x1F, CHR '' ''])"

definition strip :: "string \<Rightarrow> string" where
  "strip s = rev (dropWhile is_space (rev (dropWhile is_space s)))"

text \<open>A trimmed string is empty or has no whitespace at either end.\<close>

definition trimmed :: "string \<Rightarrow> bool" where
  "trimmed s \<longleftrightarrow> s = [] \<or> (\<not> is_space (hd s) \<and> \<not> is_space (last s))"

definition replace :: "char \<Rightarrow> char \<Rightarrow> string \<Rightarrow> string" where
  "replace old new s = map (\<lambda>c. if c = old then new else c) s"

text \<open>
  \<^verbatim>\<open>s.split(d)\<close>: one piece more than there are separators; the pieces may be empty.
  A character other than the separator extends the first piece of the rest; the rest
  always has a first piece (the result is never the empty list).
\<close>

fun split_on :: "char \<Rightarrow> string \<Rightarrow> string list" where
  "split_on d [] = [[]]"
| "split_on d (c # cs) =
     (if c = d then [] # split_on d cs
      else (case split_on d cs of [] \<Rightarrow> [[c]] | p # ps \<Rightarrow> (c # p) # ps))"

fun starts_with :: "string \<Rightarrow> string \<Rightarrow> bool" where
  "starts_with [] text = True"
| "starts_with (w # ws) [] = False"
| "starts_with (w # ws) (c # cs) = (w = c \<and> starts_with ws cs)"

text \<open>\<^verbatim>\<open>w in text\<close> on strings: \<open>w\<close> occurs in \<open>text\<close> as a contiguous substring.\<close>

fun str_contains :: "string \<Rightarrow> string \<Rightarrow> bool" where
  "str_contains w [] = (w = [])"
| "str_contains w (c # cs) = (starts_with w (c # cs) \<or> str_contains w cs)"

section \<open>Records handed to the core\<close>

text \<open>
  Rows of the tables \<^verbatim>\<open>menu_items\<close> and \<^verbatim>\<open>user_preferences\<close>.  Every column the
  core reads may hold SQL NULL (Python \<^verbatim>\<open>None\<close>), which is \<open>None\<close> here.  The
  scorer's arithmetic on the REAL columns is modelled over the real numbers; the rows of
  the totals query are modelled with doubles, in the section on the aggregator.
\<close>

record menu_item =
  name :: "string option"
  tags :: "string option"
  calories :: "real option"
  protein :: "real option"
  carbs :: "real option"
  fat :: "real option"

record preferences =
  dietary_restrictions :: "string option"
  wellness_goal :: "string option"
  fav_cuisines :: "string option"
  disliked_items :: "string option"

text \<open>\<^verbatim>\<open>x or ""\<close> and \<^verbatim>\<open>x or 0\<close>: the default replaces \<^verbatim>\<open>None\<close> (and the falsy value itself).\<close>

definition or_empty :: "string option \<Rightarrow> string" where
  "or_empty x = (case x of None \<Rightarrow> [] | Some s \<Rightarrow> s)"

definition or_zero :: "real option \<Rightarrow> real" where
  "or_zero x = (case x of None \<Rightarrow> 0 | Some v \<Rightarrow> v)"

section \<open>Normalization of free-text fields\<close>

text \<open>\<^verbatim>\<open>helpers.parse_list_field\<close>\<close>

definition parse_list_field :: "string option \<Rightarrow> string list" where
  "parse_list_field field =
     (case field of
        None \<Rightarrow> []
      | Some f \<Rightarrow> if f = [] then [] else map (\<lambda>item. lower (strip item)) (split_on CHR '','' f))"

text \<open>\<^verbatim>\<open>app._load_dietary_flags\<close>; the loop adds each non-empty trimmed part to the set.\<close>

definition add_flag :: "string \<Rightarrow> string set \<Rightarrow> string set" where
  "add_flag part flags = (let part' = strip part in if part' \<noteq> [] then insert part' flags else flags)"

definition load_dietary_flags :: "preferences option \<Rightarrow> string set" where
  "load_dietary_flags prefs_row =
     (case prefs_row of
        None \<Rightarrow> {}
      | Some p \<Rightarrow>
          (let raw = or_empty (dietary_restrictions p)
           in fold add_flag (split_on CHR '','' (replace CHR '';'' CHR '','' (lower raw))) {}))"

section \<open>Dietary filter\<close>

definition MEAT_WORDS :: "string list" where
  "MEAT_WORDS = [''chicken'', ''beef'', ''pork'', ''bacon'', ''ham'', ''turkey'', ''sausage'',
                 ''pepperoni'', ''meatball'', ''meatballs'', ''steak'']"

definition SEAFOOD_WORDS :: "string list" where
  "SEAFOOD_WORDS = [''fish'', ''salmon'', ''tuna'', ''shrimp'', ''crab'', ''lobster'', ''cod'',
                    ''tilapia'']"

text \<open>The word list written inline in the vegan branch of the filter.\<close>

definition DAIRY_EGG_WORDS :: "string list" where
  "DAIRY_EGG_WORDS = [''cheese'', ''egg'', ''eggs'', ''milk'', ''yogurt'', ''butter'', ''cream'']"

text \<open>\<^verbatim>\<open>any(w in text for w in words)\<close>\<close>

definition any_word_in :: "string list \<Rightarrow> string \<Rightarrow> bool" where
  "any_word_in words text = list_ex (\<lambda>w. str_contains w text) words"

text \<open>The blob \<^verbatim>\<open>f"{name} {tags}"\<close> of the lower-cased name and tags.\<close>

definition item_text :: "menu_item \<Rightarrow> string" where
  "item_text item = lower (or_empty (name item)) @ '' '' @ lower (or_empty (tags item))"

text \<open>\<^verbatim>\<open>app._violates_dietary_restrictions\<close>, with its three early returns.\<close>

definition violates_dietary_restrictions :: "menu_item \<Rightarrow> string set \<Rightarrow> bool" where
  "violates_dietary_restrictions item dietary_flags =
     (let text = item_text item in
      if ''vegetarian'' \<in> dietary_flags \<and> any_word_in (MEAT_WORDS @ SEAFOOD_WORDS) text then True
      else if ''vegan'' \<in> dietary_flags \<and> any_word_in (MEAT_WORDS @ SEAFOOD_WORDS) text then True
      else if ''vegan'' \<in> dietary_flags \<and> any_word_in DAIRY_EGG_WORDS text then True
      else False)"

section \<open>Category classifier\<close>

text \<open>The dictionary \<^verbatim>\<open>CATEGORY_KEYWORDS\<close>, in its declaration (iteration) order.\<close>

definition CATEGORY_KEYWORDS :: "(string \<times> string list) list" where
  "CATEGORY_KEYWORDS =
     [(''waffle'', [''waffle'']),
      (''pancake'', [''pancake'']),
      (''bagel'', [''bagel'']),
      (''bread'', [''toast'', ''bread'']),
      (''eggs'', [''egg'', ''omelet'', ''omelette'']),
      (''yogurt'', [''yogurt'']),
      (''oatmeal'', [''oatmeal'', ''oats'']),
      (''salad'', [''salad'']),
      (''soup'', [''soup'']),
      (''sandwich'', [''sandwich'', ''wrap'']),
      (''pizza'', [''pizza'']),
      (''burger'', [''burger''])]"

fun first_category :: "(string \<times> string list) list \<Rightarrow> string \<Rightarrow> string" where
  "first_category [] lower_name = ''other''"
| "first_category ((cat, keywords) # rest) lower_name =
     (if any_word_in keywords lower_name then cat else first_category rest lower_name)"

definition infer_category :: "string option \<Rightarrow> string" where
  "infer_category nm = first_category CATEGORY_KEYWORDS (lower (or_empty nm))"

section \<open>Preference scorer\<close>

text \<open>
  \<^verbatim>\<open>helpers.score_menu_item\<close>.  The preferences row is \<open>None\<close> when the user has none;
  a row that exists is never an empty dictionary, so \<^verbatim>\<open>not prefs\<close> is exactly absence.
  The running \<^verbatim>\<open>score\<close> is threaded through the four stages in the source's order.
\<close>

definition dietary_stage :: "string list \<Rightarrow> string list \<Rightarrow> real \<Rightarrow> real" where
  "dietary_stage dietary item_tags score =
     (let score = (if ''vegetarian'' \<in> set dietary \<and> ''vegetarian'' \<notin> set item_tags
                   then score - 100 else score);
          score = (if ''vegan'' \<in> set dietary \<and> ''vegan'' \<notin> set item_tags
                   then score - 100 else score);
          score = (if ''gluten-free'' \<in> set dietary \<and> ''gluten-free'' \<notin> set item_tags
                   then score - 50 else score)
      in score)"

definition goal_stage :: "string \<Rightarrow> real \<Rightarrow> real \<Rightarrow> real \<Rightarrow> real" where
  "goal_stage goal cal prot score =
     (if goal = ''gain muscle'' then (score + prot * 0.6) - cal * 0.05
      else if goal = ''lose weight'' then (score - cal * 0.1) + prot * 0.2
      else if goal = ''maintain'' then score + prot * 0.3
      else score)"

definition fav_stage :: "string list \<Rightarrow> string \<Rightarrow> real \<Rightarrow> real" where
  "fav_stage favs nm score =
     fold (\<lambda>fav score. if fav \<noteq> [] \<and> str_contains fav nm then score + 5 else score) favs score"

definition dislike_stage :: "string list \<Rightarrow> string \<Rightarrow> real \<Rightarrow> real" where
  "dislike_stage dislikes nm score =
     fold (\<lambda>bad score. if bad \<noteq> [] \<and> str_contains bad nm then score - 20 else score) dislikes score"

definition score_menu_item :: "menu_item \<Rightarrow> preferences option \<Rightarrow> real" where
  "score_menu_item item prefs =
     (case prefs of
        None \<Rightarrow> or_zero (protein item) * 0.3 - or_zero (calories item) * 0.05
      | Some p \<Rightarrow>
          (let dietary = parse_list_field (dietary_restrictions p);
               favs = parse_list_field (fav_cuisines p);
               dislikes = parse_list_field (disliked_items p);
               goal = lower (or_empty (wellness_goal p));
               item_tags = parse_list_field (tags item);
               nm = lower (or_empty (name item));
               cal = or_zero (calories item);
               prot = or_zero (protein item)
           in dislike_stage dislikes nm
                (fav_stage favs nm
                  (goal_stage goal cal prot
                    (dietary_stage dietary item_tags 0)))))"

section \<open>Diversified selector\<close>

text \<open>
  The part of \<^verbatim>\<open>app.dashboard\<close> that computes \<^verbatim>\<open>items\<close>, \<^verbatim>\<open>scored\<close> and
  \<^verbatim>\<open>recommendations\<close> from the rows \<^verbatim>\<open>raw_items\<close>, the preferences row and the
  dietary flags.  The first loop appends every surviving item to both lists.
\<close>

definition filter_step ::
  "preferences option \<Rightarrow> string set \<Rightarrow> menu_item \<Rightarrow>
   menu_item list \<times> (menu_item \<times> real) list \<Rightarrow> menu_item list \<times> (menu_item \<times> real) list" where
  "filter_step prefs dietary_flags item st =
     (if violates_dietary_restrictions item dietary_flags then st
      else (fst st @ [item], snd st @ [(item, score_menu_item item prefs)]))"

definition filter_and_score ::
  "menu_item list \<Rightarrow> preferences option \<Rightarrow> string set \<Rightarrow>
   menu_item list \<times> (menu_item \<times> real) list" where
  "filter_and_score raw_items prefs dietary_flags =
     fold (filter_step prefs dietary_flags) raw_items ([], [])"

text \<open>
  \<^verbatim>\<open>scored.sort(key=lambda t: t[1], reverse=True)\<close>.  Python's sort is stable, also with
  \<^verbatim>\<open>reverse=True\<close>; the result of a stable sort is determined by its input, and is
  computed here by insertion from the right, an element going before the first one
  whose score is not greater than its own.
\<close>

fun insert_desc :: "(menu_item \<times> real) \<Rightarrow> (menu_item \<times> real) list \<Rightarrow> (menu_item \<times> real) list" where
  "insert_desc t [] = [t]"
| "insert_desc t (u # us) = (if snd u \<le> snd t then t # u # us else u # insert_desc t us)"

fun sort_desc :: "(menu_item \<times> real) list \<Rightarrow> (menu_item \<times> real) list" where
  "sort_desc [] = []"
| "sort_desc (t # ts) = insert_desc t (sort_desc ts)"

text \<open>The second loop: skip a used category, append otherwise, stop at three.\<close>

fun pick :: "(menu_item \<times> real) list \<Rightarrow> menu_item list \<Rightarrow> string set \<Rightarrow> menu_item list" where
  "pick [] recommendations used_cats = recommendations"
| "pick ((item, sc) # rest) recommendations used_cats =
     (let cat = infer_category (name item) in
      if cat \<in> used_cats then pick rest recommendations used_cats
      else if length (recommendations @ [item]) = 3 then recommendations @ [item]
      else pick rest (recommendations @ [item]) (insert cat used_cats))"

definition admissible_items :: "menu_item list \<Rightarrow> preferences option \<Rightarrow> string set \<Rightarrow> menu_item list" where
  "admissible_items raw_items prefs dietary_flags = fst (filter_and_score raw_items prefs dietary_flags)"

definition sorted_candidates ::
  "menu_item list \<Rightarrow> preferences option \<Rightarrow> string set \<Rightarrow> (menu_item \<times> real) list" where
  "sorted_candidates raw_items prefs dietary_flags =
     sort_desc (snd (filter_and_score raw_items prefs dietary_flags))"

definition recommend :: "menu_item list \<Rightarrow> preferences option \<Rightarrow> string set \<Rightarrow> menu_item list" where
  "recommend raw_items prefs dietary_flags = pick (sorted_candidates raw_items prefs dietary_flags) [] {}"

text \<open>In \<^verbatim>\<open>dashboard\<close> the flags are those loaded from the same preferences row.\<close>

definition dashboard_recommendations :: "menu_item list \<Rightarrow> preferences option \<Rightarrow> menu_item list" where
  "dashboard_recommendations raw_items prefs = recommend raw_items prefs (load_dietary_flags prefs)"

section \<open>Daily macro aggregator\<close>

subsection \<open>Double-precision addition\<close>










text \<open>The real number that \<open>Finite m e\<close> denotes.\<close>

definition finite_value :: "int \<Rightarrow> int \<Rightarrow> real" where
  "finite_value m e = (if 0 \<le> e then of_int m * 2 ^ nat e else of_int m / 2 ^ nat (- e))"

subsection \<open>The totals loop\<close>










section \<open>Example rows\<close>

definition turkey_sandwich :: menu_item where
  "turkey_sandwich = \<lparr>name = Some ''Turkey Sandwich'', tags = Some '''', calories = None,
     protein = None, carbs = None, fat = None\<rparr>"

definition cheese_omelette :: menu_item where
  "cheese_omelette = \<lparr>name = Some ''Cheese Omelette'', tags = Some '''', calories = None,
     protein = None, carbs = None, fat = None\<rparr>"

definition protein_bowl :: menu_item where
  "protein_bowl = \<lparr>name = Some ''Protein Bowl'', tags = Some '''', calories = Some 400,
     protein = Some 20, carbs = None, fat = None\<rparr>"

definition blank_preferences :: preferences where
  "blank_preferences = \<lparr>dietary_restrictions = Some '''', wellness_goal = Some ''Bulk up'',
     fav_cuisines = None, disliked_items = Some ''''\<rparr>"

definition semicolon_preferences :: preferences where
  "semicolon_preferences = \<lparr>dietary_restrictions = Some ''Vegan; Nuts,,'', wellness_goal = None,
     fav_cuisines = None, disliked_items = None\<rparr>"





section \<open>Facts about the string primitives\<close>

lemmas str_eval = lower_def lower_char_def upper_letters_def lower_letters_def strip_def
  is_space_def replace_def or_empty_def

lemmas word_lists = MEAT_WORDS_def SEAFOOD_WORDS_def DAIRY_EGG_WORDS_def

lemmas filter_eval = violates_dietary_restrictions_def item_text_def any_word_in_def word_lists
  str_eval

text \<open>The two recursive tests compute the prefix and the substring relation.\<close>

lemma starts_with_iff: "starts_with w t \<longleftrightarrow> (\<exists>s. t = w @ s)"
  by (induction w t rule: starts_with.induct) auto

lemma str_contains_iff: "str_contains w t \<longleftrightarrow> (\<exists>p s. t = p @ w @ s)"
proof (induction t)
  case Nil
  then show ?case by simp
next
  case (Cons c cs)
  show ?case
  proof
    assume "str_contains w (c # cs)"
    then consider "starts_with w (c # cs)" | "str_contains w cs" by auto
    then show "\<exists>p s. c # cs = p @ w @ s"
    proof cases
      case 1
      then obtain s where "c # cs = w @ s" using starts_with_iff by blast
      then have "c # cs = [] @ w @ s" by simp
      then show ?thesis by blast
    next
      case 2
      then obtain p s where "cs = p @ w @ s" using Cons.IH by blast
      then have "c # cs = (c # p) @ w @ s" by simp
      then show ?thesis by blast
    qed
  next
    assume "\<exists>p s. c # cs = p @ w @ s"
    then obtain p s where ps: "c # cs = p @ w @ s" by blast
    show "str_contains w (c # cs)"
    proof (cases p)
      case Nil
      with ps have "starts_with w (c # cs)" using starts_with_iff by auto
      then show ?thesis by simp
    next
      case (Cons a p')
      with ps have "cs = p' @ w @ s" by simp
      then have "str_contains w cs" using Cons.IH by blast
      then show ?thesis by simp
    qed
  qed
qed

subsection \<open>Splitting and lower-casing\<close>

lemma split_on_nonempty: "split_on d s \<noteq> []"
  by (induction s) (auto split: list.splits)

lemma length_split_on: "length (split_on d s) = Suc (count_list s d)"
  by (induction s) (auto simp: split_on_nonempty split: list.splits)

lemma split_on_pieces: "p \<in> set (split_on d s) \<Longrightarrow> set p \<subseteq> set s - {d}"
proof (induction s arbitrary: p)
  case Nil
  then show ?case by simp
next
  case (Cons c cs)
  show ?case
  proof (cases "c = d")
    case True
    with Cons.prems have "p = [] \<or> p \<in> set (split_on d cs)" by simp
    with Cons.IH show ?thesis by auto
  next
    case False
    obtain q qs where q: "split_on d cs = q # qs"
      using split_on_nonempty [of d cs] by (cases "split_on d cs") auto
    with False Cons.prems have "p = c # q \<or> p \<in> set qs" by simp
    moreover have "set q \<subseteq> set cs - {d}" using Cons.IH [of q] q by simp
    moreover have "p \<in> set qs \<Longrightarrow> set p \<subseteq> set cs - {d}" using Cons.IH [of p] q by simp
    ultimately show ?thesis using False by auto
  qed
qed

lemma zip_letters_fst: "map fst (zip upper_letters lower_letters) = upper_letters"
  by (simp add: upper_letters_def lower_letters_def)

lemma lower_char_cases:
  "(c \<notin> set upper_letters \<and> lower_char c = c)
   \<or> (c \<in> set upper_letters \<and> lower_char c \<in> set lower_letters)"
proof (cases "map_of (zip upper_letters lower_letters) c")
  case None
  have "c \<notin> fst ` set (zip upper_letters lower_letters)"
    using None by (rule iffD1 [OF map_of_eq_None_iff])
  then have "c \<notin> set (map fst (zip upper_letters lower_letters))"
    by simp
  then have "c \<notin> set upper_letters"
    unfolding zip_letters_fst .
  with None show ?thesis by (simp add: lower_char_def)
next
  case (Some l)
  then have "(c, l) \<in> set (zip upper_letters lower_letters)" by (rule map_of_SomeD)
  then have "c \<in> set upper_letters" "l \<in> set lower_letters"
    by (auto dest: set_zip_leftD set_zip_rightD)
  with Some show ?thesis by (simp add: lower_char_def)
qed

lemma letters_disjoint: "set lower_letters \<inter> set upper_letters = {}"
  by (simp add: lower_letters_def upper_letters_def)

lemma lower_not_upper: "l \<in> set lower_letters \<Longrightarrow> l \<notin> set upper_letters"
  using letters_disjoint by (simp add: disjoint_iff)

lemma lower_char_idem: "lower_char (lower_char c) = lower_char c"
proof (cases "c \<in> set upper_letters")
  case True
  then have "lower_char c \<in> set lower_letters"
    using lower_char_cases [of c] by simp
  then have "lower_char c \<notin> set upper_letters" by (rule lower_not_upper)
  then show ?thesis using lower_char_cases [of "lower_char c"] by simp
next
  case False
  then have "lower_char c = c" using lower_char_cases [of c] by simp
  then show ?thesis by simp
qed

lemma letters_not_space:
  "\<forall>l \<in> set lower_letters. \<not> is_space l" "\<forall>l \<in> set upper_letters. \<not> is_space l"
  by (simp_all add: lower_letters_def upper_letters_def is_space_def)

lemma is_space_lower_char: "is_space (lower_char c) = is_space c"
proof (cases "c \<in> set upper_letters")
  case True
  then have "lower_char c \<in> set lower_letters"
    using lower_char_cases [of c] by simp
  then have "\<not> is_space (lower_char c)" using letters_not_space(1) by simp
  moreover have "\<not> is_space c" using True letters_not_space(2) by simp
  ultimately show ?thesis by simp
next
  case False
  then have "lower_char c = c" using lower_char_cases [of c] by simp
  then show ?thesis by simp
qed

lemma separators_not_letters:
  "CHR '','' \<notin> set lower_letters" "CHR '','' \<notin> set upper_letters"
  "CHR '';'' \<notin> set lower_letters" "CHR '';'' \<notin> set upper_letters"
  by (simp_all add: lower_letters_def upper_letters_def)

lemma lower_char_comma: "lower_char c = CHR '','' \<longleftrightarrow> c = CHR '',''"
proof (cases "c \<in> set upper_letters")
  case True
  then have "lower_char c \<in> set lower_letters"
    using lower_char_cases [of c] by simp
  then have "lower_char c \<noteq> CHR '',''" using separators_not_letters(1) by auto
  moreover have "c \<noteq> CHR '',''" using True separators_not_letters(2) by auto
  ultimately show ?thesis by simp
next
  case False
  then have "lower_char c = c" using lower_char_cases [of c] by simp
  then show ?thesis by simp
qed

lemma lower_char_semicolon: "lower_char c = CHR '';'' \<longleftrightarrow> c = CHR '';''"
proof (cases "c \<in> set upper_letters")
  case True
  then have "lower_char c \<in> set lower_letters"
    using lower_char_cases [of c] by simp
  then have "lower_char c \<noteq> CHR '';''" using separators_not_letters(3) by auto
  moreover have "c \<noteq> CHR '';''" using True separators_not_letters(4) by auto
  ultimately show ?thesis by simp
next
  case False
  then have "lower_char c = c" using lower_char_cases [of c] by simp
  then show ?thesis by simp
qed

lemma lower_idem: "lower (lower s) = lower s"
  by (simp add: lower_def lower_char_idem)

text \<open>A string is lower-case when lower-casing leaves each of its characters alone.\<close>

lemma lower_fixed_iff: "lower s = s \<longleftrightarrow> (\<forall>c \<in> set s. lower_char c = c)"
  unfolding lower_def by (induction s) auto

subsection \<open>Trimming\<close>

lemma set_strip: "set (strip s) \<subseteq> set s"
proof -
  have "set (strip s) = set (dropWhile is_space (rev (dropWhile is_space s)))"
    by (simp add: strip_def)
  also have "\<dots> \<subseteq> set (rev (dropWhile is_space s))"
    by (auto dest: set_dropWhileD)
  also have "\<dots> \<subseteq> set s"
    by (auto dest: set_dropWhileD)
  finally show ?thesis .
qed

lemma last_dropWhile_eq: "dropWhile P xs \<noteq> [] \<Longrightarrow> last (dropWhile P xs) = last xs"
proof -
  assume ne: "dropWhile P xs \<noteq> []"
  have "last xs = last (takeWhile P xs @ dropWhile P xs)" by simp
  also have "\<dots> = last (dropWhile P xs)" using ne by (rule last_appendR)
  finally show ?thesis by simp
qed

lemma trimmed_strip: "trimmed (strip s)"
proof (cases "strip s = []")
  case True
  then show ?thesis by (simp add: trimmed_def)
next
  case False
  define t where "t = dropWhile is_space s"
  define u where "u = dropWhile is_space (rev t)"
  have su: "strip s = rev u" by (simp add: strip_def t_def u_def)
  with False have une: "u \<noteq> []" by simp
  then have rne: "rev t \<noteq> []" by (auto simp: u_def)
  then have tne: "t \<noteq> []" by simp
  have "\<not> is_space (hd u)" using une unfolding u_def by (rule hd_dropWhile)
  then have l: "\<not> is_space (last (rev u))" using une by (simp add: last_rev)
  have "last u = last (rev t)" using une unfolding u_def by (rule last_dropWhile_eq)
  also have "\<dots> = hd t" using tne by (simp add: last_rev)
  finally have "hd (rev u) = hd t" using une by (simp add: hd_rev)
  moreover have "\<not> is_space (hd t)" using tne unfolding t_def by (rule hd_dropWhile)
  ultimately have h: "\<not> is_space (hd (rev u))" by simp
  from h l su show ?thesis by (simp add: trimmed_def)
qed

lemma strip_trimmed: "trimmed s \<Longrightarrow> strip s = s"
proof (cases s)
  case Nil
  then show ?thesis by (simp add: strip_def)
next
  case (Cons c cs)
  assume "trimmed s"
  with Cons have h: "\<not> is_space (hd s)" and l: "\<not> is_space (last s)"
    by (simp_all add: trimmed_def)
  from h Cons have 1: "dropWhile is_space s = s" by simp
  have "rev s \<noteq> []" using Cons by simp
  then obtain r rs where r: "rev s = r # rs" by (cases "rev s") auto
  have "hd (rev s) = last s" using Cons by (simp add: hd_rev)
  with l r have "\<not> is_space r" by simp
  with r have 2: "dropWhile is_space (rev s) = rev s" by simp
  show ?thesis unfolding strip_def 1 2 by simp
qed

lemma strip_idem: "strip (strip s) = strip s"
  by (rule strip_trimmed) (rule trimmed_strip)

lemma dropWhile_space_lower:
  "dropWhile is_space (map lower_char s) = map lower_char (dropWhile is_space s)"
  by (induction s) (simp_all add: is_space_lower_char)

lemma strip_lower: "strip (lower s) = lower (strip s)"
proof -
  have "strip (lower s) = rev (dropWhile is_space (rev (map lower_char (dropWhile is_space s))))"
    by (simp add: strip_def lower_def dropWhile_space_lower)
  also have "\<dots> = rev (dropWhile is_space (map lower_char (rev (dropWhile is_space s))))"
    by (simp only: rev_map)
  also have "\<dots> = rev (map lower_char (dropWhile is_space (rev (dropWhile is_space s))))"
    by (simp only: dropWhile_space_lower)
  also have "\<dots> = lower (strip s)"
    by (simp add: strip_def lower_def rev_map)
  finally show ?thesis .
qed

section \<open>Normalization of free-text fields: what each path computes\<close>

lemma fold_add_flag: "fold add_flag parts S = S \<union> (strip ` set parts - {[]})"
proof (induction parts arbitrary: S)
  case Nil
  show ?case by simp
next
  case (Cons a parts)
  show ?case
    unfolding fold_Cons comp_apply Cons.IH
    by (auto simp: add_flag_def Let_def)
qed

lemma load_dietary_flags_eq:
  "load_dietary_flags (Some p) =
     strip ` set (split_on CHR '','' (replace CHR '';'' CHR '','' (lower (or_empty (dietary_restrictions p)))))
     - {[]}"
  by (simp add: load_dietary_flags_def Let_def fold_add_flag)

lemma lower_char_comma_fixed: "lower_char CHR '','' = CHR '',''"
  using lower_char_comma [of "CHR '',''"] by simp

lemma replace_lower_replace:
  "replace CHR '';'' CHR '','' (lower (replace CHR '';'' CHR '','' s))
     = replace CHR '';'' CHR '','' (lower s)"
  unfolding replace_def lower_def
  by (induction s) (simp_all add: lower_char_comma_fixed lower_char_semicolon)

lemma normalized_chars:
  assumes "x \<in> set (replace CHR '';'' CHR '','' (lower raw))"
  shows "lower_char x = x \<and> x \<noteq> CHR '';''"
proof -
  from assms obtain c where c: "c \<in> set raw"
    and x: "x = (if lower_char c = CHR '';'' then CHR '','' else lower_char c)"
    unfolding replace_def lower_def by auto
  show ?thesis
  proof (cases "lower_char c = CHR '';''")
    case True
    with x show ?thesis by (simp add: lower_char_comma_fixed)
  next
    case False
    with x show ?thesis by (simp add: lower_char_idem)
  qed
qed

lemma flag_token:
  assumes "t \<in> load_dietary_flags prefs_row"
  shows "lower t = t \<and> strip t = t \<and> CHR '','' \<notin> set t \<and> CHR '';'' \<notin> set t"
proof -
  from assms obtain p where p: "prefs_row = Some p"
    by (cases prefs_row) (auto simp: load_dietary_flags_def)
  define W where "W = replace CHR '';'' CHR '','' (lower (or_empty (dietary_restrictions p)))"
  from assms p have "t \<in> load_dietary_flags (Some p)" by simp
  then have "t \<in> strip ` set (split_on CHR '','' W) - {[]}"
    unfolding load_dietary_flags_eq W_def .
  then obtain part where part: "part \<in> set (split_on CHR '','' W)" and t: "t = strip part"
    by auto
  have sub: "set t \<subseteq> set W - {CHR '',''}"
    using set_strip [of part] split_on_pieces [OF part] t by blast
  have chars: "\<forall>x \<in> set t. lower_char x = x \<and> x \<noteq> CHR '';''"
    using sub normalized_chars unfolding W_def by blast
  have 1: "lower t = t" using chars by (simp add: lower_fixed_iff)
  have 2: "strip t = t" unfolding t by (rule strip_idem)
  have 3: "CHR '','' \<notin> set t" using sub by auto
  have 4: "CHR '';'' \<notin> set t" using chars by auto
  from 1 2 3 4 show ?thesis by simp
qed

lemma parse_token:
  assumes "t \<in> set (parse_list_field fld)"
  shows "lower t = t \<and> strip t = t \<and> CHR '','' \<notin> set t"
proof -
  from assms obtain f where f: "fld = Some f" "f \<noteq> []"
    by (cases fld) (auto simp: parse_list_field_def split: if_splits)
  with assms obtain item where item: "item \<in> set (split_on CHR '','' f)"
    and t: "t = lower (strip item)"
    by (auto simp: parse_list_field_def)
  have 1: "lower t = t" unfolding t by (rule lower_idem)
  have "strip t = lower (strip (strip item))" unfolding t by (rule strip_lower)
  then have 2: "strip t = t" by (simp add: strip_idem t)
  have sub: "set (strip item) \<subseteq> set f - {CHR '',''}"
    using set_strip [of item] split_on_pieces [OF item] by blast
  have 3: "CHR '','' \<notin> set t"
  proof
    assume "CHR '','' \<in> set t"
    then obtain x where "x \<in> set (strip item)" "lower_char x = CHR '',''"
      unfolding t lower_def by auto
    then have "CHR '','' \<in> set (strip item)" by (simp add: lower_char_comma)
    with sub show False by auto
  qed
  from 1 2 3 show ?thesis by simp
qed

text \<open>
  The scorer's normalization \<open>parse_list_field\<close> splits on commas only and keeps empty
  tokens: a semicolon-separated field stays one token, and two adjacent commas give an
  empty token.
\<close>

theorem parse_list_field_counterexample:
  "parse_list_field (Some ''vegan; nuts'') = [''vegan; nuts'']
   \<and> parse_list_field (Some ''vegan, nuts'') = [''vegan'', ''nuts'']
   \<and> parse_list_field (Some ''vegan; nuts'') \<noteq> parse_list_field (Some ''vegan, nuts'')
   \<and> parse_list_field (Some ''vegan,, nuts'') = [''vegan'', '''', ''nuts'']
   \<and> '''' \<in> set (parse_list_field (Some ''vegan,, nuts''))"
  by (simp add: parse_list_field_def str_eval)

text \<open>
  Claim C1, as the code has it.  The dietary-flag loader lower-cases the text, splits it
  on commas and semicolons, trims each token and drops the empty ones: the flag set never
  contains the empty string, a field with its semicolons replaced by commas gives the same
  flags, and every flag is lower-case, trimmed and free of both separators.  The scorer's
  normalization of dietary restrictions, favorite cuisines, disliked items and item tags
  lower-cases, splits on commas only and trims: an empty or absent field gives no token,
  a non-empty field gives one token more than it has commas (none is dropped), and every
  token is lower-case, trimmed and free of commas.
\<close>

theorem normalization_as_coded:
  "[] \<notin> load_dietary_flags prefs_row
   \<and> load_dietary_flags (Some (p\<lparr>dietary_restrictions := Some (replace CHR '';'' CHR '','' s)\<rparr>))
       = load_dietary_flags (Some (p\<lparr>dietary_restrictions := Some s\<rparr>))
   \<and> (\<forall>t \<in> load_dietary_flags prefs_row.
         lower t = t \<and> strip t = t \<and> CHR '','' \<notin> set t \<and> CHR '';'' \<notin> set t)
   \<and> parse_list_field None = [] \<and> parse_list_field (Some []) = []
   \<and> (f \<noteq> [] \<longrightarrow> length (parse_list_field (Some f)) = Suc (count_list f CHR '',''))
   \<and> (\<forall>t \<in> set (parse_list_field fld). lower t = t \<and> strip t = t \<and> CHR '','' \<notin> set t)"
proof -
  have 1: "[] \<notin> load_dietary_flags prefs_row"
    by (cases prefs_row) (simp_all add: load_dietary_flags_eq, simp add: load_dietary_flags_def)
  have 2: "load_dietary_flags (Some (p\<lparr>dietary_restrictions := Some (replace CHR '';'' CHR '','' s)\<rparr>))
       = load_dietary_flags (Some (p\<lparr>dietary_restrictions := Some s\<rparr>))"
    by (simp add: load_dietary_flags_eq or_empty_def replace_lower_replace)
  have 3: "\<forall>t \<in> load_dietary_flags prefs_row.
         lower t = t \<and> strip t = t \<and> CHR '','' \<notin> set t \<and> CHR '';'' \<notin> set t"
    using flag_token by blast
  have 4: "parse_list_field None = [] \<and> parse_list_field (Some []) = []"
    by (simp add: parse_list_field_def)
  have 5: "f \<noteq> [] \<longrightarrow> length (parse_list_field (Some f)) = Suc (count_list f CHR '','')"
    by (simp add: parse_list_field_def length_split_on)
  have 6: "\<forall>t \<in> set (parse_list_field fld). lower t = t \<and> strip t = t \<and> CHR '','' \<notin> set t"
    using parse_token by blast
  from 1 2 3 4 5 6 show ?thesis by blast
qed

theorem normalization_as_coded_witness:
  "load_dietary_flags (Some semicolon_preferences) = {''nuts'', ''vegan''}
   \<and> lower ''vegan'' = ''vegan'' \<and> strip ''vegan'' = ''vegan''
   \<and> ''vegan; nuts'' \<noteq> []
   \<and> length (parse_list_field (Some ''vegan; nuts'')) = Suc (count_list ''vegan; nuts'' CHR '','')
   \<and> ''vegan; nuts'' \<in> set (parse_list_field (Some ''vegan; nuts''))
   \<and> CHR '','' \<notin> set ''vegan; nuts''"
proof -
  have flags: "load_dietary_flags (Some semicolon_preferences) = {''nuts'', ''vegan''}"
    by (simp add: semicolon_preferences_def load_dietary_flags_def add_flag_def str_eval)
  have tok: "''vegan; nuts'' \<in> set (parse_list_field (Some ''vegan; nuts''))"
    by (simp add: parse_list_field_def str_eval)
  have ne: "''vegan; nuts'' \<noteq> []" by simp
  note n = normalization_as_coded [where prefs_row = "Some semicolon_preferences"
      and f = "''vegan; nuts''" and fld = "Some ''vegan; nuts''"]
  from n flags have "lower ''vegan'' = ''vegan'' \<and> strip ''vegan'' = ''vegan''" by blast
  moreover from n ne have
    "length (parse_list_field (Some ''vegan; nuts'')) = Suc (count_list ''vegan; nuts'' CHR '','')"
    by blast
  moreover from n tok have "CHR '','' \<notin> set ''vegan; nuts''" by blast
  ultimately show ?thesis using flags tok ne by blast
qed

section \<open>Dietary filter: rejection condition\<close>

lemma violates_iff:
  "violates_dietary_restrictions item flags \<longleftrightarrow>
     (''vegetarian'' \<in> flags \<and> any_word_in (MEAT_WORDS @ SEAFOOD_WORDS) (item_text item))
   \<or> (''vegan'' \<in> flags \<and> (any_word_in (MEAT_WORDS @ SEAFOOD_WORDS) (item_text item)
                               \<or> any_word_in DAIRY_EGG_WORDS (item_text item)))"
  by (auto simp: violates_dietary_restrictions_def Let_def)

lemma turkey_violates: "violates_dietary_restrictions turkey_sandwich {''vegetarian''}"
  by (simp add: turkey_sandwich_def filter_eval)

text \<open>
  Claim C2.  The filter rejects an item exactly when the flag "vegetarian" is present and
  the blob of the lower-cased name and tags contains a meat or seafood word, or the flag
  "vegan" is present and the blob contains a meat, seafood or dairy/egg word.  With
  neither flag every item is admissible, and "Cheese Omelette" with empty tags is
  rejected under the flags {"vegan"}.
\<close>

theorem dietary_filter_characterisation:
  "(violates_dietary_restrictions item flags \<longleftrightarrow>
      (''vegetarian'' \<in> flags
         \<and> (\<exists>w \<in> set (MEAT_WORDS @ SEAFOOD_WORDS).
               str_contains w (lower (or_empty (name item)) @ '' '' @ lower (or_empty (tags item)))))
    \<or> (''vegan'' \<in> flags
         \<and> (\<exists>w \<in> set (MEAT_WORDS @ SEAFOOD_WORDS @ DAIRY_EGG_WORDS).
               str_contains w (lower (or_empty (name item)) @ '' '' @ lower (or_empty (tags item))))))
   \<and> (''vegetarian'' \<notin> flags \<and> ''vegan'' \<notin> flags \<longrightarrow> \<not> violates_dietary_restrictions item flags)
   \<and> violates_dietary_restrictions
        \<lparr>name = Some ''Cheese Omelette'', tags = Some '''', calories = c, protein = p,
         carbs = cb, fat = f\<rparr> {''vegan''}
   \<and> DAIRY_EGG_WORDS = [''cheese'', ''egg'', ''eggs'', ''milk'', ''yogurt'', ''butter'', ''cream'']"
proof -
  have 1: "violates_dietary_restrictions item flags \<longleftrightarrow>
      (''vegetarian'' \<in> flags
         \<and> (\<exists>w \<in> set (MEAT_WORDS @ SEAFOOD_WORDS).
               str_contains w (lower (or_empty (name item)) @ '' '' @ lower (or_empty (tags item)))))
    \<or> (''vegan'' \<in> flags
         \<and> (\<exists>w \<in> set (MEAT_WORDS @ SEAFOOD_WORDS @ DAIRY_EGG_WORDS).
               str_contains w (lower (or_empty (name item)) @ '' '' @ lower (or_empty (tags item)))))"
    unfolding violates_iff any_word_in_def list_ex_iff item_text_def by auto
  have 2: "''vegetarian'' \<notin> flags \<and> ''vegan'' \<notin> flags \<longrightarrow> \<not> violates_dietary_restrictions item flags"
    unfolding violates_iff by simp
  have 3: "violates_dietary_restrictions
        \<lparr>name = Some ''Cheese Omelette'', tags = Some '''', calories = c, protein = p,
         carbs = cb, fat = f\<rparr> {''vegan''}"
    by (simp add: filter_eval)
  from 1 2 3 show ?thesis by (simp add: DAIRY_EGG_WORDS_def)
qed

theorem dietary_filter_characterisation_witness:
  "violates_dietary_restrictions cheese_omelette {''vegan''}
   \<and> (\<exists>w \<in> set (MEAT_WORDS @ SEAFOOD_WORDS @ DAIRY_EGG_WORDS).
         str_contains w (lower (or_empty (name cheese_omelette)) @ '' ''
                           @ lower (or_empty (tags cheese_omelette))))
   \<and> ''vegetarian'' \<notin> {''gluten-free''} \<and> ''vegan'' \<notin> {''gluten-free''}
   \<and> \<not> violates_dietary_restrictions turkey_sandwich {''gluten-free''}"
  using dietary_filter_characterisation [of cheese_omelette "{''vegan''}" None None None None]
    dietary_filter_characterisation [of turkey_sandwich "{''gluten-free''}" None None None None]
  by (simp add: cheese_omelette_def)

text \<open>
  Claim C10.  An item rejected under a flag set that contains "vegetarian" is also
  rejected under the same set with "vegetarian" replaced by "vegan".
\<close>

theorem vegetarian_rejection_implies_vegan_rejection:
  assumes "''vegetarian'' \<in> flags"
    and "violates_dietary_restrictions item flags"
  shows "violates_dietary_restrictions item (insert ''vegan'' (flags - {''vegetarian''}))"
  using assms unfolding violates_iff by auto

theorem vegetarian_rejection_implies_vegan_rejection_witness:
  "''vegetarian'' \<in> {''vegetarian''}
   \<and> violates_dietary_restrictions turkey_sandwich {''vegetarian''}
   \<and> violates_dietary_restrictions turkey_sandwich
        (insert ''vegan'' ({''vegetarian''} - {''vegetarian''}))"
  using vegetarian_rejection_implies_vegan_rejection [of "{''vegetarian''}" turkey_sandwich]
    turkey_violates by simp

section \<open>Preference scorer: the score as a sum of contributions\<close>

text \<open>
  Claim C3.  Without a preferences record the score is protein * 0.3 - calories * 0.05,
  an absent calories or protein value counting as 0; an item with calories 400 and
  protein 20 scores -14.
\<close>

theorem cold_start_score:
  "score_menu_item item None =
     (case protein item of None \<Rightarrow> 0 | Some p \<Rightarrow> p) * 0.3
     - (case calories item of None \<Rightarrow> 0 | Some c \<Rightarrow> c) * 0.05
   \<and> score_menu_item \<lparr>name = n, tags = t, calories = Some 400, protein = Some 20,
                        carbs = cb, fat = f\<rparr> None = - 14
   \<and> score_menu_item \<lparr>name = n, tags = t, calories = None, protein = None,
                        carbs = cb, fat = f\<rparr> None = 0"
  by (simp add: score_menu_item_def or_zero_def)

lemma dietary_stage_add: "dietary_stage d t s = s + dietary_stage d t 0"
  by (simp add: dietary_stage_def Let_def)

lemma goal_stage_add: "goal_stage g c p s = s + goal_stage g c p 0"
  by (simp add: goal_stage_def)

lemma fav_stage_add: "fav_stage favs nm s = s + fav_stage favs nm 0"
proof (induction favs arbitrary: s)
  case Nil
  show ?case by (simp add: fav_stage_def)
next
  case (Cons a favs)
  show ?case
    using Cons.IH [of "s + 5"] Cons.IH [of s] Cons.IH [of 5] Cons.IH [of 0]
    by (simp add: fav_stage_def)
qed

lemma dislike_stage_add: "dislike_stage ds nm s = s + dislike_stage ds nm 0"
proof (induction ds arbitrary: s)
  case Nil
  show ?case by (simp add: dislike_stage_def)
next
  case (Cons a ds)
  show ?case
    using Cons.IH [of "s - 20"] Cons.IH [of s] Cons.IH [of "- 20"] Cons.IH [of 0]
    by (simp add: dislike_stage_def)
qed

lemma score_sum:
  "score_menu_item item (Some p) =
     dietary_stage (parse_list_field (dietary_restrictions p)) (parse_list_field (tags item)) 0
   + goal_stage (lower (or_empty (wellness_goal p))) (or_zero (calories item)) (or_zero (protein item)) 0
   + fav_stage (parse_list_field (fav_cuisines p)) (lower (or_empty (name item))) 0
   + dislike_stage (parse_list_field (disliked_items p)) (lower (or_empty (name item))) 0"
  unfolding score_menu_item_def Let_def option.case
  using dislike_stage_add fav_stage_add goal_stage_add
  by (metis (no_types, opaque_lifting) add.assoc)

lemma parse_absent: "parse_list_field None = []" "parse_list_field (Some []) = []"
  by (simp_all add: parse_list_field_def)

lemma stages_nil: "dietary_stage [] t 0 = 0" "fav_stage [] nm 0 = 0" "dislike_stage [] nm 0 = 0"
  "goal_stage [] c pr 0 = 0"
  by (simp_all add: dietary_stage_def fav_stage_def dislike_stage_def goal_stage_def)



text \<open>
  Claim C9.  A preferences record that is present, whose dietary restrictions, favorite
  cuisines and disliked items are empty or absent and whose goal matches none of
  "gain muscle", "lose weight", "maintain" (under the scorer's case-insensitive
  comparison), gives every item the score 0, whatever its calories and protein; the
  cold-start path without a record still uses both.
\<close>

theorem empty_preferences_score_zero:
  assumes "dietary_restrictions p \<in> {None, Some ''''}"
    and "fav_cuisines p \<in> {None, Some ''''}"
    and "disliked_items p \<in> {None, Some ''''}"
    and "lower (or_empty (wellness_goal p)) \<notin> {''gain muscle'', ''lose weight'', ''maintain''}"
  shows "score_menu_item item (Some p) = 0
         \<and> score_menu_item item None = or_zero (protein item) * 0.3 - or_zero (calories item) * 0.05"
proof -
  from assms(1-3) have "parse_list_field (dietary_restrictions p) = []"
    "parse_list_field (fav_cuisines p) = []" "parse_list_field (disliked_items p) = []"
    by (auto simp: parse_absent)
  moreover from assms(4) have
    "goal_stage (lower (or_empty (wellness_goal p))) (or_zero (calories item)) (or_zero (protein item)) 0 = 0"
    by (simp add: goal_stage_def)
  ultimately have "score_menu_item item (Some p) = 0"
    by (simp add: score_sum stages_nil)
  then show ?thesis by (simp add: score_menu_item_def)
qed

theorem empty_preferences_score_zero_witness:
  "dietary_restrictions blank_preferences \<in> {None, Some ''''}
   \<and> fav_cuisines blank_preferences \<in> {None, Some ''''}
   \<and> disliked_items blank_preferences \<in> {None, Some ''''}
   \<and> lower (or_empty (wellness_goal blank_preferences)) \<notin> {''gain muscle'', ''lose weight'', ''maintain''}
   \<and> score_menu_item protein_bowl (Some blank_preferences) = 0
   \<and> score_menu_item protein_bowl None = - 14"
proof -
  have h: "dietary_restrictions blank_preferences \<in> {None, Some ''''}"
    "fav_cuisines blank_preferences \<in> {None, Some ''''}"
    "disliked_items blank_preferences \<in> {None, Some ''''}"
    "lower (or_empty (wellness_goal blank_preferences)) \<notin> {''gain muscle'', ''lose weight'', ''maintain''}"
    by (simp_all add: blank_preferences_def str_eval)
  have "or_zero (protein protein_bowl) * 0.3 - or_zero (calories protein_bowl) * 0.05 = - 14"
    by (simp add: protein_bowl_def or_zero_def)
  with h empty_preferences_score_zero [OF h, of protein_bowl] show ?thesis by simp
qed

section \<open>Diversified selector: ordering and diversity\<close>

lemma fold_filter_step:
  "fold (filter_step prefs flags) raw st =
     (fst st @ filter (\<lambda>i. \<not> violates_dietary_restrictions i flags) raw,
      snd st @ map (\<lambda>i. (i, score_menu_item i prefs))
                 (filter (\<lambda>i. \<not> violates_dietary_restrictions i flags) raw))"
  by (induction raw arbitrary: st) (simp_all add: filter_step_def)

lemma admissible_items_eq:
  "admissible_items raw prefs flags = filter (\<lambda>i. \<not> violates_dietary_restrictions i flags) raw"
  by (simp add: admissible_items_def filter_and_score_def fold_filter_step)

lemma scored_eq:
  "snd (filter_and_score raw prefs flags) =
     map (\<lambda>i. (i, score_menu_item i prefs)) (admissible_items raw prefs flags)"
  by (simp add: admissible_items_eq filter_and_score_def fold_filter_step)

lemma set_insert_desc: "set (insert_desc t us) = insert t (set us)"
  by (induction us) auto

lemma set_sort_desc: "set (sort_desc ts) = set ts"
  by (induction ts) (simp_all add: set_insert_desc)

lemma length_insert_desc: "length (insert_desc t us) = Suc (length us)"
  by (induction us) auto

lemma length_sort_desc: "length (sort_desc ts) = length ts"
  by (induction ts) (simp_all add: length_insert_desc)

lemma sorted_insert_desc:
  "sorted_wrt (\<lambda>a b. snd b \<le> snd a) us \<Longrightarrow> sorted_wrt (\<lambda>a b. snd b \<le> snd a) (insert_desc t us)"
proof (induction us)
  case Nil
  show ?case by simp
next
  case (Cons u us)
  show ?case
  proof (cases "snd u \<le> snd t")
    case True
    with Cons.prems show ?thesis by auto
  next
    case False
    with Cons show ?thesis by (auto simp: set_insert_desc)
  qed
qed

lemma sorted_sort_desc: "sorted_wrt (\<lambda>a b. snd b \<le> snd a) (sort_desc ts)"
  by (induction ts) (simp_all add: sorted_insert_desc)

lemma filter_insert_desc:
  "filter (\<lambda>y. snd y = k) (insert_desc t us) =
     (if snd t = k then t # filter (\<lambda>y. snd y = k) us else filter (\<lambda>y. snd y = k) us)"
  by (induction us) auto

lemma filter_sort_desc: "filter (\<lambda>y. snd y = k) (sort_desc ts) = filter (\<lambda>y. snd y = k) ts"
  by (induction ts) (simp_all add: filter_insert_desc)

text \<open>
  A list sorted by descending score is determined by its equal-score sublists, so every
  stable descending sort of the scored list computes \<open>sorted_candidates\<close>.
\<close>

lemma stable_desc_unique:
  fixes ys zs :: "('a \<times> real) list"
  assumes "sorted_wrt (\<lambda>a b. snd b \<le> snd a) ys"
    and "sorted_wrt (\<lambda>a b. snd b \<le> snd a) zs"
    and "\<And>k. filter (\<lambda>t. snd t = k) ys = filter (\<lambda>t. snd t = k) zs"
  shows "ys = zs"
  using assms
proof (induction ys arbitrary: zs)
  case Nil
  have e: "filter (\<lambda>t. snd t = k) zs = []" for k
    using Nil.prems(3) [of k] by simp
  show ?case
  proof (cases zs)
    case Nil
    then show ?thesis by simp
  next
    case (Cons z zs')
    have "filter (\<lambda>t. snd t = snd z) (z # zs') \<noteq> []" by simp
    with e [of "snd z"] Cons show ?thesis by blast
  qed
next
  case (Cons y ys)
  have hz: "filter (\<lambda>t. snd t = snd y) zs = y # filter (\<lambda>t. snd t = snd y) ys"
    using Cons.prems(3) [of "snd y"] by simp
  have "y \<in> set (filter (\<lambda>t. snd t = snd y) zs)"
    unfolding hz by simp
  then have yz: "y \<in> set zs" by simp
  then obtain z zs' where zs: "zs = z # zs'" by (cases zs) auto
  have hy: "filter (\<lambda>t. snd t = snd z) (y # ys) = z # filter (\<lambda>t. snd t = snd z) zs'"
    using Cons.prems(3) [of "snd z"] unfolding zs by simp
  have "z \<in> set (filter (\<lambda>t. snd t = snd z) (y # ys))"
    unfolding hy by simp
  then have zy: "z \<in> set (y # ys)"
    unfolding set_filter by blast
  have le1: "snd y \<le> snd z"
    using yz Cons.prems(2) unfolding zs by auto
  have le2: "snd z \<le> snd y"
    using zy Cons.prems(1) by auto
  have eq: "snd z = snd y" using le1 le2 by simp
  have "z # filter (\<lambda>t. snd t = snd y) zs' = y # filter (\<lambda>t. snd t = snd y) ys"
    using hz unfolding zs using eq by simp
  then have yz_eq: "y = z" by simp
  have tails: "filter (\<lambda>t. snd t = k) ys = filter (\<lambda>t. snd t = k) zs'" for k
  proof (cases "snd z = k")
    case True
    have "filter (\<lambda>t. snd t = k) (z # ys) = filter (\<lambda>t. snd t = k) (z # zs')"
      using Cons.prems(3) [of k] unfolding zs yz_eq .
    with True show ?thesis by simp
  next
    case False
    have "filter (\<lambda>t. snd t = k) (z # ys) = filter (\<lambda>t. snd t = k) (z # zs')"
      using Cons.prems(3) [of k] unfolding zs yz_eq .
    with False show ?thesis by simp
  qed
  have s1: "sorted_wrt (\<lambda>a b. snd b \<le> snd a) ys"
    using Cons.prems(1) by simp
  have s2: "sorted_wrt (\<lambda>a b. snd b \<le> snd a) zs'"
    using Cons.prems(2) unfolding zs by simp
  have "ys = zs'" using Cons.IH [OF s1 s2 tails] .
  with zs yz_eq show ?case by simp
qed

lemma sorted_candidates_unique:
  assumes "sorted_wrt (\<lambda>a b. snd b \<le> snd a) ys"
    and "\<And>k. filter (\<lambda>t. snd t = k) ys
               = filter (\<lambda>t. snd t = k) (snd (filter_and_score items prefs flags))"
  shows "ys = sorted_candidates items prefs flags"
proof (rule stable_desc_unique [OF assms(1)])
  show "sorted_wrt (\<lambda>a b. snd b \<le> snd a) (sorted_candidates items prefs flags)"
    by (simp add: sorted_candidates_def sorted_sort_desc)
  show "filter (\<lambda>t. snd t = k) ys = filter (\<lambda>t. snd t = k) (sorted_candidates items prefs flags)" for k
    using assms(2) [of k] by (simp add: sorted_candidates_def filter_sort_desc)
qed

text \<open>
  Claim C7.  The candidate list is ordered by score descending, and for every score the
  candidates with that score appear in it in the order in which they survived the
  filter, which is the order of the input rows: the sort is stable.  The candidate list
  is a function of the input rows, the preferences and the flags.
\<close>

theorem candidates_sorted_stably:
  "sorted_wrt (\<lambda>a b. snd b \<le> snd a) (sorted_candidates items prefs flags)
   \<and> (\<forall>k. filter (\<lambda>t. snd t = k) (sorted_candidates items prefs flags)
           = filter (\<lambda>t. snd t = k)
               (map (\<lambda>i. (i, score_menu_item i prefs))
                  (filter (\<lambda>i. \<not> violates_dietary_restrictions i flags) items)))
   \<and> length (sorted_candidates items prefs flags)
       = length (filter (\<lambda>i. \<not> violates_dietary_restrictions i flags) items)"
  by (simp add: sorted_candidates_def sorted_sort_desc filter_sort_desc length_sort_desc scored_eq
      admissible_items_eq)

lemma pick_distinct:
  "distinct (map (\<lambda>i. infer_category (name i)) recs) \<Longrightarrow>
   (\<lambda>i. infer_category (name i)) ` set recs \<subseteq> used \<Longrightarrow>
   distinct (map (\<lambda>i. infer_category (name i)) (pick cs recs used))"
proof (induction cs recs used rule: pick.induct)
  case (1 recs used)
  then show ?case by simp
next
  case (2 item sc rest recs used)
  show ?case
  proof (cases "infer_category (name item) \<in> used")
    case True
    with 2 show ?thesis by simp
  next
    case False
    with "2.prems" have d: "distinct (map (\<lambda>i. infer_category (name i)) (recs @ [item]))"
      and s: "(\<lambda>i. infer_category (name i)) ` set (recs @ [item]) \<subseteq> insert (infer_category (name item)) used"
      by auto
    show ?thesis
    proof (cases "length (recs @ [item]) = 3")
      case True
      with False d show ?thesis by simp
    next
      case F3: False
      have "distinct (map (\<lambda>i. infer_category (name i))
              (pick rest (recs @ [item]) (insert (infer_category (name item)) used)))"
        using "2.IH"(2) [OF refl False F3 d s] .
      with False F3 show ?thesis by simp
    qed
  qed
qed

lemma pick_length: "length recs < 3 \<Longrightarrow> length (pick cs recs used) \<le> 3"
proof (induction cs recs used rule: pick.induct)
  case (1 recs used)
  then show ?case by simp
next
  case (2 item sc rest recs used)
  then show ?case by (auto simp: Let_def)
qed

lemma pick_subset: "set (pick cs recs used) \<subseteq> set recs \<union> fst ` set cs"
proof (induction cs recs used rule: pick.induct)
  case (1 recs used)
  then show ?case by simp
next
  case (2 item sc rest recs used)
  then show ?case by (auto simp: Let_def)
qed

text \<open>
  Claim C6.  No two recommended items have the same inferred category, there are at most
  three of them and at most as many as there are distinct inferred categories among the
  admissible items, and an empty input gives an empty result.
\<close>

theorem recommend_category_diverse:
  "distinct (map (\<lambda>i. infer_category (name i)) (recommend items prefs flags))
   \<and> length (recommend items prefs flags)
       \<le> min 3 (card ((\<lambda>i. infer_category (name i)) `
                         {i \<in> set items. \<not> violates_dietary_restrictions i flags}))
   \<and> recommend [] prefs flags = []"
proof -
  let ?cat = "\<lambda>i. infer_category (name i)"
  let ?R = "recommend items prefs flags"
  have d: "distinct (map ?cat ?R)"
    unfolding recommend_def by (rule pick_distinct) simp_all
  have l3: "length ?R \<le> 3"
    unfolding recommend_def by (rule pick_length) simp
  have "set ?R \<subseteq> fst ` set (sorted_candidates items prefs flags)"
    unfolding recommend_def using pick_subset [of _ "[]"] by simp
  also have "\<dots> = {i \<in> set items. \<not> violates_dietary_restrictions i flags}"
    by (auto simp: sorted_candidates_def set_sort_desc scored_eq admissible_items_eq image_iff)
  finally have sub: "set ?R \<subseteq> {i \<in> set items. \<not> violates_dietary_restrictions i flags}" .
  have "length ?R = card (set (map ?cat ?R))"
    using d distinct_card [of "map ?cat ?R"] by simp
  also have "\<dots> \<le> card (?cat ` {i \<in> set items. \<not> violates_dietary_restrictions i flags})"
    using sub by (intro card_mono) auto
  finally have lc: "length ?R \<le> card (?cat ` {i \<in> set items. \<not> violates_dietary_restrictions i flags})" .
  have e: "recommend [] prefs flags = []"
    by (simp add: recommend_def sorted_candidates_def filter_and_score_def)
  from d l3 lc e show ?thesis by simp
qed

section \<open>Daily macro aggregator: the running sum in double arithmetic\<close>

subsection \<open>Adding zero is exact\<close>















subsection \<open>The sum of two doubles is a double\<close>








subsection \<open>Totals\<close>










text \<open>The three constants are the doubles nearest to 0.1, 0.2 and 0.3.\<close>

lemma tenths_nearest:
  "\<bar>finite_value 3602879701896397 (- 55) - 1 / 10\<bar> < 1 / 2 ^ 57"
  "\<bar>finite_value 3602879701896397 (- 54) - 2 / 10\<bar> < 1 / 2 ^ 56"
  "\<bar>finite_value 5404319552844595 (- 54) - 3 / 10\<bar> < 1 / 2 ^ 55"
  by (simp_all add: finite_value_def)







end
